theory Spec2Isabelle
  imports Main "HOL-Library.Word"
begin

unbundle bit_operations_syntax

section \<open>HDCP 1.x authentication engine of the i915 driver (intel\_hdcp.c)\<close>

text \<open>
  The development embeds \<^verbatim>\<open>drivers/gpu/drm/i915/intel_hdcp.c\<close>. Bytes are
  \<open>8 word\<close>, the 32-bit registers and counters of the hash framer are \<open>32 word\<close>,
  return codes are \<open>int\<close> (0 or a negated errno, as the C returns them).
\<close>

type_synonym u8 = "8 word"
type_synonym u32 = "32 word"

subsection \<open>Constants of headers that the file includes\<close>

text \<open>
  Modelled from the spec: \<^verbatim>\<open>DRM_HDCP_KSV_LEN\<close> of \<^verbatim>\<open>drm/drm_hdcp.h\<close>, which is
  not part of the sources at hand; the spec fixes a KSV to 5 bytes (40 bits).
\<close>

definition DRM_HDCP_KSV_LEN :: nat where
  "DRM_HDCP_KSV_LEN = 5"

text \<open>
  Modelled from the spec: \<^verbatim>\<open>hweight8\<close> of \<^verbatim>\<open>linux/bitops.h\<close>, which is not part
  of the sources at hand; the spec calls it the population count of a byte. The definition
  follows the kernel's constant-folding form, which adds the eight tests
  \<^verbatim>\<open>!!(w & (1 << i))\<close>.
\<close>

definition hweight8 :: "u8 \<Rightarrow> nat" where
  "hweight8 w = (\<Sum>i\<leftarrow>[0..<8]. if w AND push_bit i 1 \<noteq> 0 then 1 else 0)"

subsection \<open>KSV validator\<close>

text \<open>
  \<^verbatim>\<open>intel_hdcp_is_ksv_valid(u8 *ksv)\<close>: the loop adds \<^verbatim>\<open>hweight8(ksv[i])\<close> for
  \<^verbatim>\<open>i = 0 .. DRM_HDCP_KSV_LEN - 1\<close> into \<^verbatim>\<open>ones\<close>; the result is false when
  \<^verbatim>\<open>ones != 20\<close> and true otherwise. The pointer is a list that holds the bytes the
  pointer refers to; the callers pass 5 bytes or more.
\<close>

fun ksv_ones :: "u8 list \<Rightarrow> nat \<Rightarrow> nat \<Rightarrow> nat" where
  "ksv_ones ksv 0 ones = ones"
| "ksv_ones ksv (Suc k) ones =
     ksv_ones ksv k (ones + hweight8 (ksv ! (DRM_HDCP_KSV_LEN - Suc k)))"

definition intel_hdcp_is_ksv_valid :: "u8 list \<Rightarrow> bool" where
  "intel_hdcp_is_ksv_valid ksv =
     (let ones = ksv_ones ksv DRM_HDCP_KSV_LEN 0
      in if ones \<noteq> 20 then False else True)"

subsection \<open>Errno values and the session record\<close>

text \<open>
  Modelled from the spec: the errno numbers of \<^verbatim>\<open>asm-generic/errno-base.h\<close> and
  \<^verbatim>\<open>errno.h\<close>, which are not part of the sources at hand. The spec names them
  PermissionDenied, NoDevice, InvalidArgument, Timeout and ResourceExhausted.
\<close>

abbreviation EPERM :: int where "EPERM \<equiv> 1"
abbreviation ENOENT :: int where "ENOENT \<equiv> 2"
abbreviation ENXIO :: int where "ENXIO \<equiv> 6"
abbreviation ENOMEM :: int where "ENOMEM \<equiv> 12"
abbreviation ENODEV :: int where "ENODEV \<equiv> 19"
abbreviation EINVAL :: int where "EINVAL \<equiv> 22"
abbreviation ETIMEDOUT :: int where "ETIMEDOUT \<equiv> 110"

datatype cp = UNDESIRED | DESIRED | ENABLED

datatype port = PORT_A | PORT_B | PORT_C | PORT_D | PORT_E | PORT_F

datatype platform = HASWELL | BROADWELL | SKYLAKE | KABYLAKE | OTHER_PLATFORM

text \<open>
  A \<^verbatim>\<open>u8 *\<close> that the driver allocates and frees: \<open>Null\<close>, a live buffer with its
  bytes, or a pointer that still holds the address of a buffer given back with
  \<^verbatim>\<open>kfree\<close>.
\<close>

datatype buf = Null | Live "u8 list" | Freed

text \<open>
  The symbolic values written to registers. The bit constants of \<^verbatim>\<open>i915_reg.h\<close> are
  not part of the sources at hand, so a written value is kept as the expression the code
  writes: a number, a named trigger, or the repeater control word \<^verbatim>\<open>rep_ctl\<close> with
  the SHA-1 text-width field OR-ed in.
\<close>

datatype rep_ctl = DDI_REP_PRESENT_SHA1_M0 port | REP_CTL_MINUS_EINVAL

datatype sha1_ctl =
    HDCP_SHA1_TEXT_32 | HDCP_SHA1_TEXT_24 | HDCP_SHA1_TEXT_16 | HDCP_SHA1_TEXT_8
  | HDCP_SHA1_TEXT_0 | HDCP_SHA1_COMPLETE_HASH

datatype regval =
    Val u32
  | HDCP_CLEAR_KEYS_TRIGGER
  | HDCP_KEY_STATUS_ALL_BITS
  | HDCP_KEY_LOAD_TRIGGER
  | HDCP_AKSV_SEND_TRIGGER
  | HDCP_CONF_CAPTURE_AN
  | HDCP_CONF_AUTH_AND_ENC
  | Rep_ctl rep_ctl
  | Rep_ctl_or rep_ctl sha1_ctl

datatype reg =
    HDCP_KEY_CONF | HDCP_KEY_STATUS | HDCP_SHA_TEXT | HDCP_REP_CTL | HDCP_SHA_V_PRIME nat
  | PORT_HDCP_CONF port | PORT_HDCP_ANINIT port | PORT_HDCP_BKSVLO port
  | PORT_HDCP_BKSVHI port | PORT_HDCP_RPRIME port

datatype shim_call =
    Read_ksv_ready | Read_bstatus | Read_ksv_fifo nat | Read_v_prime_part nat
  | Hdcp_capable | Write_an_aksv "u8 list" | Read_bksv | Repeater_present
  | Toggle_signalling bool | Read_ri_prime | Check_link

datatype work = Hdcp_prop_work | Hdcp_check_work | Hdcp_enable_work

text \<open>
  What a run does to the outside, in order: register writes, calls into the receiver shim,
  allocations, log lines (the text of the \<^verbatim>\<open>DRM_ERROR\<close>, \<^verbatim>\<open>DRM_INFO\<close> and
  \<^verbatim>\<open>DRM_DEBUG\<close> format strings), work items and sleeps.
\<close>

datatype event =
    I915_write reg regval
  | Shim shim_call
  | Kzalloc nat
  | Log string
  | Schedule_work work
  | Schedule_delayed_work work
  | Cancel_delayed_work_sync work
  | Wait_remaining_ms nat
  | Update_cp_downstream_property

record cp_downstream_info =
  device_count :: nat
  depth :: nat
  bksv :: "u8 list"
  ksv_list :: "u8 list"
  is_repeater :: bool

text \<open>
  The per-connector session (\<^verbatim>\<open>struct intel_connector\<close>, the fields the file uses),
  together with the two things a run threads through: \<open>tick\<close>, the number of answers
  taken from the environment so far, and \<open>trace\<close>, the events emitted so far.
  \<open>hdcp_shim\<close> is \<open>None\<close> for a NULL shim and otherwise tells whether the shim has
  the optional \<^verbatim>\<open>hdcp_capable\<close> hook; \<open>dig_port\<close> is what
  \<^verbatim>\<open>conn_to_dig_port\<close> yields (\<open>None\<close> for NULL); \<open>content_protection\<close> is
  \<^verbatim>\<open>connector->base.state->content_protection\<close>, the published property.
\<close>

record hdcp_state =
  hdcp_shim :: "bool option"
  dig_port :: "port option"
  hdcp_value :: cp
  content_protection :: cp
  downstream_info :: cp_downstream_info
  revocated_ksv_list :: buf
  revocated_ksv_cnt :: nat
  srm_blob_id :: nat
  tick :: nat
  trace :: "event list"

text \<open>
  The environment: the answers of the hardware, the receiver shim, the allocator and the
  property store. Each answer is indexed by the tick at which it is asked for, so the same
  call can be answered differently each time it is made.
\<close>

record env =
  platform :: platform
  power_well_enabled :: "nat \<Rightarrow> bool"
  key_load_done :: "nat \<Rightarrow> bool"
  key_load_status :: "nat \<Rightarrow> bool"
  pcode_write :: "nat \<Rightarrow> int"
  wait_ret :: "nat \<Rightarrow> int"
  reg_u32 :: "nat \<Rightarrow> u32"
  reg_bit :: "nat \<Rightarrow> bool"
  random_u32 :: "nat \<Rightarrow> u32"
  kzalloc_ok :: "nat \<Rightarrow> bool"
  blobs :: "nat \<Rightarrow> u8 list option"
  shim_ret :: "nat \<Rightarrow> int"
  shim_bool :: "nat \<Rightarrow> bool"
  shim_bytes :: "nat \<Rightarrow> u8 list"
  shim_u32 :: "nat \<Rightarrow> u32"
  property_ret :: "nat \<Rightarrow> int"

definition emit :: "event \<Rightarrow> hdcp_state \<Rightarrow> hdcp_state" where
  "emit e s = s\<lparr>trace := trace s @ [e]\<rparr>"

definition next_tick :: "hdcp_state \<Rightarrow> hdcp_state" where
  "next_tick s = s\<lparr>tick := Suc (tick s)\<rparr>"

text \<open>A read of one byte, and of \<open>n\<close> bytes, of a buffer; \<open>None\<close> outside it.\<close>

definition rd :: "u8 list \<Rightarrow> nat \<Rightarrow> u8 option" where
  "rd bs i = (if i < length bs then Some (bs ! i) else None)"

definition rd_range :: "u8 list \<Rightarrow> nat \<Rightarrow> nat \<Rightarrow> u8 list option" where
  "rd_range bs off n = (if off + n \<le> length bs then Some (take n (drop off bs)) else None)"

subsection \<open>Revocation check\<close>

text \<open>
  \<^verbatim>\<open>intel_hdcp_ksvs_revocated(connector, ksvs, ksv_count)\<close>. The three nested loops are
  three recursive functions; the second argument of each pair is the pointer offset
  (\<^verbatim>\<open>ksvs += 5\<close>, \<^verbatim>\<open>rev_ksv_list += 5\<close>), the last the iterations left. The result
  is \<open>None\<close> when a byte outside a buffer, or of a freed buffer, would be read. The
  debug print of the revoked KSV is left out.
\<close>

fun ksv_bytes_match :: "u8 list \<Rightarrow> nat \<Rightarrow> u8 list \<Rightarrow> nat \<Rightarrow> nat \<Rightarrow> bool option" where
  "ksv_bytes_match ksvs ko rvl ro 0 = Some False"
| "ksv_bytes_match ksvs ko rvl ro (Suc k) =
     (let j = DRM_HDCP_KSV_LEN - Suc k in
      case rd ksvs (ko + j) of None \<Rightarrow> None
      | Some a \<Rightarrow>
       (case rd rvl (ro + j) of None \<Rightarrow> None
        | Some b \<Rightarrow>
           if a \<noteq> b then Some False
           else if j = DRM_HDCP_KSV_LEN - 1 then Some True
           else ksv_bytes_match ksvs ko rvl ro k))"

fun rev_list_scan :: "u8 list \<Rightarrow> nat \<Rightarrow> u8 list \<Rightarrow> nat \<Rightarrow> nat \<Rightarrow> bool option" where
  "rev_list_scan ksvs ko rvl ro 0 = Some False"
| "rev_list_scan ksvs ko rvl ro (Suc k) =
     (case ksv_bytes_match ksvs ko rvl ro DRM_HDCP_KSV_LEN of None \<Rightarrow> None
      | Some True \<Rightarrow> Some True
      | Some False \<Rightarrow> rev_list_scan ksvs ko rvl (ro + DRM_HDCP_KSV_LEN) k)"

fun ksvs_scan :: "u8 list \<Rightarrow> nat \<Rightarrow> u8 list \<Rightarrow> nat \<Rightarrow> nat \<Rightarrow> bool option" where
  "ksvs_scan ksvs ko rvl rev_ksv_cnt 0 = Some False"
| "ksvs_scan ksvs ko rvl rev_ksv_cnt (Suc k) =
     (case rev_list_scan ksvs ko rvl 0 rev_ksv_cnt of None \<Rightarrow> None
      | Some True \<Rightarrow> Some True
      | Some False \<Rightarrow> ksvs_scan ksvs (ko + DRM_HDCP_KSV_LEN) rvl rev_ksv_cnt k)"

definition intel_hdcp_ksvs_revocated :: "hdcp_state \<Rightarrow> u8 list \<Rightarrow> nat \<Rightarrow> bool option" where
  "intel_hdcp_ksvs_revocated connector ksvs ksv_count =
     (let rev_ksv_cnt = revocated_ksv_cnt connector;
          rev_ksv_list = revocated_ksv_list connector
      in if rev_ksv_cnt = 0 \<or> rev_ksv_list = Null then Some False
         else case rev_ksv_list of
                Live rvl \<Rightarrow> ksvs_scan ksvs 0 rvl rev_ksv_cnt ksv_count
              | _ \<Rightarrow> if ksv_count = 0 then Some False else None)"

subsection \<open>SRM parsing\<close>

text \<open>
  Modelled from the spec: the SRM layout constants of \<^verbatim>\<open>drm/drm_hdcp.h\<close> and
  \<^verbatim>\<open>struct cp_srm_header\<close>, which are not part of the sources at hand. The spec gives
  a header with version, generation number and source identifier, followed by a 24-bit
  length field and a signature; the numbers are those of HDCP 1.4: a packed header of 5
  bytes whose first byte carries the 4-bit SRM id in its upper half, the id 8, a length
  field of 3 bytes and a DCP signature of 40 bytes.
\<close>

definition sizeof_cp_srm_header :: nat where
  "sizeof_cp_srm_header = 5"

definition DRM_HDCP_1_4_SRM_ID :: u8 where
  "DRM_HDCP_1_4_SRM_ID = 8"

definition DRM_HDCP_1_4_VRL_LENGTH_SIZE :: nat where
  "DRM_HDCP_1_4_VRL_LENGTH_SIZE = 3"

definition DRM_HDCP_1_4_DCP_SIG_SIZE :: nat where
  "DRM_HDCP_1_4_DCP_SIG_SIZE = 40"

definition srm_id :: "u8 list \<Rightarrow> u8" where
  "srm_id data = drop_bit 4 (data ! 0)"

text \<open>
  \<^verbatim>\<open>intel_hdcp_get_revocated_ksv_count(buf, vrls_length)\<close>: a do-while loop, so the body
  runs before the test. \<open>data\<close> is the blob and \<open>off\<close> the offset of \<^verbatim>\<open>buf\<close> in it.
  The \<^verbatim>\<open>u32\<close> counters are natural numbers: the caller passes a length below
  \<open>2 ^ 24\<close> and a round adds at most 1276, so they stay far below \<open>2 ^ 32\<close>.
\<close>

function ksv_count_loop :: "u8 list \<Rightarrow> nat \<Rightarrow> nat \<Rightarrow> nat \<Rightarrow> nat \<Rightarrow> nat option" where
  "ksv_count_loop data off vrls_length parsed_bytes ksv_count =
     (case rd data off of None \<Rightarrow> None
      | Some b \<Rightarrow>
         let vrl_ksv_cnt = unat b;
             vrl_sz = vrl_ksv_cnt * DRM_HDCP_KSV_LEN + 1
         in if parsed_bytes + vrl_sz < vrls_length
            then ksv_count_loop data (off + vrl_sz) vrls_length (parsed_bytes + vrl_sz)
                   (ksv_count + vrl_ksv_cnt)
            else Some (ksv_count + vrl_ksv_cnt))"
  by pat_completeness auto
termination
  by (relation "measure (\<lambda>(data, off, vrls_length, parsed_bytes, ksv_count).
        vrls_length - parsed_bytes)") auto

declare ksv_count_loop.simps [simp del]

definition intel_hdcp_get_revocated_ksv_count :: "u8 list \<Rightarrow> nat \<Rightarrow> nat \<Rightarrow> nat option" where
  "intel_hdcp_get_revocated_ksv_count data off vrls_length =
     ksv_count_loop data off vrls_length 0 0"

text \<open>
  \<^verbatim>\<open>intel_hdcp_get_revocated_ksvs(ksv_list, buf, vrls_length)\<close>: the same walk, with
  the \<^verbatim>\<open>memcpy\<close> of each segment's KSVs to the end of what has been copied so far.
  The result is the count and \<open>dst\<close>, the bytes written to \<^verbatim>\<open>ksv_list\<close>.
\<close>

function ksvs_copy_loop ::
  "u8 list \<Rightarrow> nat \<Rightarrow> nat \<Rightarrow> nat \<Rightarrow> nat \<Rightarrow> u8 list \<Rightarrow> (nat \<times> u8 list) option" where
  "ksvs_copy_loop data off vrls_length parsed_bytes ksv_count dst =
     (case rd data off of None \<Rightarrow> None
      | Some b \<Rightarrow>
         let vrl_ksv_cnt = unat b;
             vrl_ksv_sz = vrl_ksv_cnt * DRM_HDCP_KSV_LEN
         in case rd_range data (off + 1) vrl_ksv_sz of None \<Rightarrow> None
            | Some seg \<Rightarrow>
               if parsed_bytes + (vrl_ksv_sz + 1) < vrls_length
               then ksvs_copy_loop data (off + 1 + vrl_ksv_sz) vrls_length
                      (parsed_bytes + (vrl_ksv_sz + 1)) (ksv_count + vrl_ksv_cnt)
                      (dst @ seg)
               else Some (ksv_count + vrl_ksv_cnt, dst @ seg))"
  by pat_completeness auto
termination
  by (relation "measure (\<lambda>(data, off, vrls_length, parsed_bytes, ksv_count, dst).
        vrls_length - parsed_bytes)") auto

declare ksvs_copy_loop.simps [simp del]

definition intel_hdcp_get_revocated_ksvs :: "u8 list \<Rightarrow> nat \<Rightarrow> nat \<Rightarrow> (nat \<times> u8 list) option" where
  "intel_hdcp_get_revocated_ksvs data off vrls_length =
     ksvs_copy_loop data off vrls_length 0 0 []"

text \<open>
  \<^verbatim>\<open>intel_hdcp_parse_srm(connector, blob)\<close>; \<open>data\<close> is \<^verbatim>\<open>blob->data\<close> and its
  length is \<^verbatim>\<open>blob->length\<close>. The result is the return value and the session, or
  \<open>None\<close> when the walk reads outside the blob or the old list pointer is freed twice.
  Whether \<^verbatim>\<open>kzalloc\<close> succeeds is the environment's answer.
\<close>

definition vrl_length_field :: "u8 list \<Rightarrow> nat" where
  "vrl_length_field data =
     unat (push_bit 16 (ucast (data ! sizeof_cp_srm_header) :: u32)
           OR push_bit 8 (ucast (data ! (sizeof_cp_srm_header + 1)))
           OR ucast (data ! (sizeof_cp_srm_header + 2)))"

definition intel_hdcp_parse_srm ::
  "env \<Rightarrow> hdcp_state \<Rightarrow> u8 list \<Rightarrow> (int \<times> hdcp_state) option" where
  "intel_hdcp_parse_srm e connector data =
     (if length data < sizeof_cp_srm_header + DRM_HDCP_1_4_VRL_LENGTH_SIZE
                         + DRM_HDCP_1_4_DCP_SIG_SIZE
      then Some (- EINVAL, emit (Log ''Invalid blob length'') connector)
      else
       let s = emit (Log ''SRM ID: 0x%x, SRM Ver: 0x%x, SRM Gen No: 0x%x'') connector in
       if srm_id data \<noteq> DRM_HDCP_1_4_SRM_ID
       then Some (- EINVAL, emit (Log ''Invalid srm_id'') s)
       else
        let vrl_length = vrl_length_field data in
        if length data < sizeof_cp_srm_header + vrl_length
           \<or> vrl_length < DRM_HDCP_1_4_VRL_LENGTH_SIZE + DRM_HDCP_1_4_DCP_SIG_SIZE
        then Some (- EINVAL, emit (Log ''Invalid blob length or vrl length'') s)
        else
         let vrl_length = vrl_length
                          - (DRM_HDCP_1_4_VRL_LENGTH_SIZE + DRM_HDCP_1_4_DCP_SIG_SIZE) in
         if vrl_length = 0
         then Some (- EINVAL, emit (Log ''No vrl found'') s)
         else
          let off = sizeof_cp_srm_header + DRM_HDCP_1_4_VRL_LENGTH_SIZE in
          case intel_hdcp_get_revocated_ksv_count data off vrl_length of None \<Rightarrow> None
          | Some ksv_count \<Rightarrow>
             if ksv_count = 0
             then Some (0, emit (Log ''Revocated KSV count is 0'') s)
             else if revocated_ksv_list s = Freed then None
             else
              let ok = kzalloc_ok e (tick s);
                  s = emit (Kzalloc (ksv_count * DRM_HDCP_KSV_LEN)) (next_tick s);
                  s = s\<lparr>revocated_ksv_list :=
                          (if ok then Live (replicate (ksv_count * DRM_HDCP_KSV_LEN) 0)
                           else Null)\<rparr>
              in if \<not> ok then Some (- ENOMEM, emit (Log ''Out of Memory'') s)
                 else
                  case intel_hdcp_get_revocated_ksvs data off vrl_length of None \<Rightarrow> None
                  | Some (copied, bytes) \<Rightarrow>
                     if copied \<noteq> ksv_count
                     then Some (- EINVAL,
                                s\<lparr>revocated_ksv_cnt := 0, revocated_ksv_list := Freed\<rparr>)
                     else Some (0, s\<lparr>revocated_ksv_list := Live bytes,
                                      revocated_ksv_cnt := ksv_count\<rparr>))"

text \<open>
  \<^verbatim>\<open>intel_hdcp_update_srm(connector, srm_blob_id)\<close>: the blob is looked up by its
  identifier (\<open>None\<close> stands for a missing blob and for a blob without data); the
  identifier is recorded when the parse returns 0. The function returns nothing.
\<close>

definition intel_hdcp_update_srm :: "env \<Rightarrow> hdcp_state \<Rightarrow> nat \<Rightarrow> hdcp_state option" where
  "intel_hdcp_update_srm e connector blob_id =
     (case blobs e blob_id of None \<Rightarrow> Some connector
      | Some data \<Rightarrow>
         (case intel_hdcp_parse_srm e connector data of None \<Rightarrow> None
          | Some (ret, s) \<Rightarrow>
             Some (if ret = 0 then s\<lparr>srm_blob_id := blob_id\<rparr> else s)))"

subsection \<open>Hardware and shim primitives\<close>

text \<open>
  \<^verbatim>\<open>I915_WRITE\<close> appends the write to the trace. The bounded waits
  (\<^verbatim>\<open>intel_wait_for_register\<close>, \<^verbatim>\<open>__intel_wait_for_register\<close>, \<^verbatim>\<open>wait_for\<close>)
  take their result, 0 or an error, from the environment; a register read that the code
  only tests against a bit mask takes the truth of that test from the environment.
  Mutexes are left out: a run here is one critical section.
\<close>

definition I915_WRITE :: "reg \<Rightarrow> regval \<Rightarrow> hdcp_state \<Rightarrow> hdcp_state" where
  "I915_WRITE r v s = emit (I915_write r v) s"

definition intel_wait_for_register :: "env \<Rightarrow> hdcp_state \<Rightarrow> int \<times> hdcp_state" where
  "intel_wait_for_register e s = (wait_ret e (tick s), next_tick s)"

definition read_bit :: "env \<Rightarrow> hdcp_state \<Rightarrow> bool \<times> hdcp_state" where
  "read_bit e s = (reg_bit e (tick s), next_tick s)"

text \<open>
  A buffer of \<open>n\<close> bytes after the shim has filled it: the shim's answer, cut or
  zero-padded to the size of the buffer.
\<close>

definition fill :: "nat \<Rightarrow> u8 list \<Rightarrow> u8 list" where
  "fill n bs = take n (bs @ replicate n 0)"

text \<open>
  Modelled from the spec: the BSTATUS macros of \<^verbatim>\<open>drm/drm_hdcp.h\<close>, which is not
  part of the sources at hand. The spec has BSTATUS encode the device count, the cascade
  depth and the two limit flags; the masks are those of HDCP 1.4 (count in bits 0 to 6 and
  the device limit in bit 7 of the first byte, depth in bits 0 to 2 and the cascade limit
  in bit 3 of the second).
\<close>

definition DRM_HDCP_MAX_DEVICE_EXCEEDED :: "u8 \<Rightarrow> bool" where
  "DRM_HDCP_MAX_DEVICE_EXCEEDED x \<longleftrightarrow> x AND 0x80 \<noteq> 0"

definition DRM_HDCP_MAX_CASCADE_EXCEEDED :: "u8 \<Rightarrow> bool" where
  "DRM_HDCP_MAX_CASCADE_EXCEEDED x \<longleftrightarrow> x AND 0x08 \<noteq> 0"

definition DRM_HDCP_NUM_DOWNSTREAM :: "u8 \<Rightarrow> u8" where
  "DRM_HDCP_NUM_DOWNSTREAM x = x AND 0x7f"

definition DRM_HDCP_DEPTH :: "u8 \<Rightarrow> u8" where
  "DRM_HDCP_DEPTH x = x AND 0x07"

text \<open>
  Modelled from the spec: \<^verbatim>\<open>DRM_HDCP_V_PRIME_NUM_PARTS\<close> of \<^verbatim>\<open>drm/drm_hdcp.h\<close>,
  which is not part of the sources at hand: the receiver's hash V' is a SHA-1 value, read
  in 5 parts of 32 bits.
\<close>

definition DRM_HDCP_V_PRIME_NUM_PARTS :: nat where
  "DRM_HDCP_V_PRIME_NUM_PARTS = 5"

text \<open>
  \<^verbatim>\<open>intel_hdcp_poll_ksv_fifo\<close>. \<^verbatim>\<open>__wait_for\<close> repeats the read of the ready flag
  until the condition \<^verbatim>\<open>read_ret || ksv_ready\<close> holds or the 5 seconds are over; it
  yields 0 in the first case and \<^verbatim>\<open>-ETIMEDOUT\<close> in the second. The model keeps the
  last read, which decides all three values.
\<close>

definition intel_hdcp_poll_ksv_fifo :: "env \<Rightarrow> hdcp_state \<Rightarrow> int \<times> hdcp_state" where
  "intel_hdcp_poll_ksv_fifo e s0 =
     (let t = tick s0;
          s = emit (Shim Read_ksv_ready) (next_tick s0);
          read_ret = shim_ret e t;
          ksv_ready = shim_bool e t;
          ret = (if read_ret \<noteq> 0 \<or> ksv_ready then 0 else - ETIMEDOUT)
      in if ret \<noteq> 0 then (ret, s)
         else if read_ret \<noteq> 0 then (read_ret, s)
         else if \<not> ksv_ready then (- ETIMEDOUT, s)
         else (0, s))"

text \<open>\<^verbatim>\<open>intel_write_sha_text\<close>: 0, or \<^verbatim>\<open>-ETIMEDOUT\<close> when SHA1\_READY does not come.\<close>

definition intel_write_sha_text :: "env \<Rightarrow> u32 \<Rightarrow> hdcp_state \<Rightarrow> int \<times> hdcp_state" where
  "intel_write_sha_text e txt s0 =
     (let s = I915_WRITE HDCP_SHA_TEXT (Val txt) s0;
          (w, s) = intel_wait_for_register e s
      in if w \<noteq> 0 then (- ETIMEDOUT, emit (Log ''Timed out waiting for SHA1 ready'') s)
         else (0, s))"

text \<open>
  \<^verbatim>\<open>intel_hdcp_get_repeater_ctl\<close>: the control word of the port; for a port outside
  A to E the error is logged and \<^verbatim>\<open>-EINVAL\<close> comes back as a \<^verbatim>\<open>u32\<close>.
\<close>

definition intel_hdcp_get_repeater_ctl :: "port \<Rightarrow> hdcp_state \<Rightarrow> rep_ctl \<times> hdcp_state" where
  "intel_hdcp_get_repeater_ctl p s =
     (if p = PORT_F then (REP_CTL_MINUS_EINVAL, emit (Log ''Unknown port %d'') s)
      else (DDI_REP_PRESENT_SHA1_M0 p, s))"

subsection \<open>Part 2 of the authentication: the repeater's downstream topology\<close>

text \<open>
  \<^verbatim>\<open>intel_hdcp_auth_downstream\<close> is embedded in the order of its text: reading the
  topology (up to the V' parts), the KSV loop of the hash framer, the BSTATUS and M0 tail,
  the zero padding with the length word, and the completion.

  Reading the topology ends the function early (\<open>Inl\<close>) or hands on the two status
  bytes, the device count, the KSV FIFO and the port. \<open>None\<close> is a fault of the
  revocation check.
\<close>

fun read_v_prime :: "env \<Rightarrow> nat list \<Rightarrow> hdcp_state \<Rightarrow> (int \<times> hdcp_state) + hdcp_state" where
  "read_v_prime e [] s = Inr s"
| "read_v_prime e (i # is) s0 =
     (let t = tick s0;
          s = emit (Shim (Read_v_prime_part i)) (next_tick s0);
          ret = shim_ret e t;
          vprime = shim_u32 e t
      in if ret \<noteq> 0 then Inl (ret, s)
         else read_v_prime e is (I915_WRITE (HDCP_SHA_V_PRIME i) (Val vprime) s))"

definition downstream_topology ::
  "env \<Rightarrow> hdcp_state \<Rightarrow>
   ((int \<times> hdcp_state) + (u8 \<times> u8 \<times> nat \<times> u8 list \<times> port \<times> hdcp_state)) option" where
  "downstream_topology e connector =
     (case dig_port connector of None \<Rightarrow> Some (Inl (EINVAL, connector))
      | Some prt \<Rightarrow>
       let (ret, s) = intel_hdcp_poll_ksv_fifo e connector in
       if ret \<noteq> 0 then Some (Inl (ret, emit (Log ''KSV list failed to become ready (%d)'') s))
       else
        let t = tick s;
            s = emit (Shim Read_bstatus) (next_tick s);
            ret = shim_ret e t;
            bstatus = fill 2 (shim_bytes e t);
            bstatus0 = bstatus ! 0;
            bstatus1 = bstatus ! 1
        in if ret \<noteq> 0 then Some (Inl (ret, s))
           else if DRM_HDCP_MAX_DEVICE_EXCEEDED bstatus0 \<or> DRM_HDCP_MAX_CASCADE_EXCEEDED bstatus1
           then Some (Inl (- EPERM, emit (Log ''Max Topology Limit Exceeded'') s))
           else
            let num_downstream = unat (DRM_HDCP_NUM_DOWNSTREAM bstatus0) in
            if num_downstream = 0 then Some (Inl (- EINVAL, s))
            else
             let s = s\<lparr>downstream_info := (downstream_info s)
                        \<lparr>device_count := num_downstream,
                         depth := unat (DRM_HDCP_DEPTH bstatus1)\<rparr>\<rparr>;
                 ok = kzalloc_ok e (tick s);
                 s = emit (Kzalloc (num_downstream * DRM_HDCP_KSV_LEN)) (next_tick s)
             in if \<not> ok then Some (Inl (- ENOMEM, s))
                else
                 let t = tick s;
                     s = emit (Shim (Read_ksv_fifo num_downstream)) (next_tick s);
                     ret = shim_ret e t;
                     ksv_fifo = fill (num_downstream * DRM_HDCP_KSV_LEN) (shim_bytes e t)
                 in if ret \<noteq> 0 then Some (Inl (ret, s))
                    else
                     case intel_hdcp_ksvs_revocated s ksv_fifo num_downstream of
                       None \<Rightarrow> None
                     | Some True \<Rightarrow>
                         Some (Inl (- EPERM, emit (Log ''Revocated Ksv(s) in ksv_fifo'') s))
                     | Some False \<Rightarrow>
                        let s = s\<lparr>downstream_info := (downstream_info s)
                                   \<lparr>ksv_list := ksv_fifo
                                        @ drop (length ksv_fifo) (ksv_list (downstream_info s))\<rparr>\<rparr>
                        in case read_v_prime e [0..<DRM_HDCP_V_PRIME_NUM_PARTS] s of
                             Inl r \<Rightarrow> Some (Inl r)
                           | Inr s \<Rightarrow>
                               Some (Inr (bstatus0, bstatus1, num_downstream, ksv_fifo, prt, s)))"

text \<open>
  The state of the hash framer: the byte cursor \<^verbatim>\<open>sha_idx\<close>, the word being assembled
  and the number of bytes that wait in its upper end.
\<close>

record sha_state =
  sha_idx :: nat
  sha_text :: u32
  sha_leftovers :: u32

text \<open>
  The two inner loops \<^verbatim>\<open>sha_text |= ksv[from + j] << ((sizeof(sha_text) - j - 1) * 8)\<close>
  for \<open>j < n\<close>; \<open>base\<close> is the offset of the KSV in the FIFO. In both loops \<open>n\<close>
  is between 1 and 4 (lemma \<open>sha_ksv_iter_leftovers\<close> below), so \<open>j \<le> 3\<close>, the shift
  does not wrap and the byte read lies inside the KSV.
\<close>

definition sha_pack :: "u8 list \<Rightarrow> nat \<Rightarrow> nat \<Rightarrow> nat \<Rightarrow> u32 \<Rightarrow> u32" where
  "sha_pack ksv_fifo base from n txt =
     foldl (\<lambda>t j. t OR push_bit ((4 - j - 1) * 8) (ucast (ksv_fifo ! (base + from + j))))
       txt [0..<n]"

text \<open>One round of the loop over the KSVs (the body of \<^verbatim>\<open>for (i = 0; i < num_downstream; i++)\<close>).\<close>

definition sha_ksv_iter ::
  "env \<Rightarrow> rep_ctl \<Rightarrow> u8 list \<Rightarrow> nat \<Rightarrow> sha_state \<times> hdcp_state
   \<Rightarrow> (int \<times> hdcp_state) + (sha_state \<times> hdcp_state)" where
  "sha_ksv_iter e rep ksv_fifo i st_s =
     (let (st, s0) = st_s;
          sha_empty = 4 - sha_leftovers st;
          txt = sha_pack ksv_fifo (i * DRM_HDCP_KSV_LEN) 0 (unat sha_empty) (sha_text st);
          (ret, s) = intel_write_sha_text e txt s0
      in if ret < 0 then Inl (ret, s)
         else
          let idx = sha_idx st + 4;
              s = (if idx mod 64 = 0
                   then I915_WRITE HDCP_REP_CTL (Rep_ctl_or rep HDCP_SHA1_TEXT_32) s else s);
              left = 5 - sha_empty;
              txt = sha_pack ksv_fifo (i * DRM_HDCP_KSV_LEN) (unat sha_empty) (unat left) 0
          in if left < 4
             then Inr (\<lparr>sha_idx = idx, sha_text = txt, sha_leftovers = left\<rparr>, s)
             else
              let (ret, s) = intel_write_sha_text e txt s
              in if ret < 0 then Inl (ret, s)
                 else Inr (\<lparr>sha_idx = idx + 4, sha_text = 0, sha_leftovers = 0\<rparr>, s))"

fun sha_ksv_loop ::
  "env \<Rightarrow> rep_ctl \<Rightarrow> u8 list \<Rightarrow> nat list \<Rightarrow> sha_state \<times> hdcp_state
   \<Rightarrow> (int \<times> hdcp_state) + (sha_state \<times> hdcp_state)" where
  "sha_ksv_loop e rep ksv_fifo [] st_s = Inr st_s"
| "sha_ksv_loop e rep ksv_fifo (i # is) st_s =
     (case sha_ksv_iter e rep ksv_fifo i st_s of
        Inl r \<Rightarrow> Inl r
      | Inr st_s' \<Rightarrow> sha_ksv_loop e rep ksv_fifo is st_s')"

text \<open>
  A run of writes to the hash engine: each step may first set the text width in
  \<^verbatim>\<open>HDCP_REP_CTL\<close>, then writes one word with \<^verbatim>\<open>intel_write_sha_text\<close>, returns
  when that fails, and moves \<^verbatim>\<open>sha_idx\<close> on by 4. The branches of the tail are such
  runs.
\<close>

fun sha_writes ::
  "env \<Rightarrow> rep_ctl \<Rightarrow> (sha1_ctl option \<times> u32) list \<Rightarrow> nat \<Rightarrow> hdcp_state
   \<Rightarrow> (int \<times> hdcp_state) + (nat \<times> hdcp_state)" where
  "sha_writes e rep [] idx s = Inr (idx, s)"
| "sha_writes e rep ((ctl, w) # ws) idx s0 =
     (let s = (case ctl of None \<Rightarrow> s0
               | Some c \<Rightarrow> I915_WRITE HDCP_REP_CTL (Rep_ctl_or rep c) s0);
          (ret, s) = intel_write_sha_text e w s
      in if ret < 0 then Inl (ret, s) else sha_writes e rep ws (idx + 4) s)"

text \<open>
  The words of the four branches that write BSTATUS and the placeholder of M0, as the
  code computes them from \<^verbatim>\<open>sha_text\<close> and \<^verbatim>\<open>bstatus\<close>.
\<close>

definition tail_words :: "u32 \<Rightarrow> u32 \<Rightarrow> u8 \<Rightarrow> u8 \<Rightarrow> (sha1_ctl option \<times> u32) list option" where
  "tail_words left txt bstatus0 bstatus1 =
     (if left = 0 then
        Some [(Some HDCP_SHA1_TEXT_16, push_bit 8 (ucast bstatus0) OR ucast bstatus1),
              (Some HDCP_SHA1_TEXT_0, 0),
              (Some HDCP_SHA1_TEXT_16, 0)]
      else if left = 1 then
        Some [(Some HDCP_SHA1_TEXT_24,
                 drop_bit 8 ((txt OR (push_bit 16 (ucast bstatus0) OR push_bit 8 (ucast bstatus1)))
                             AND 0xffffff00)),
              (Some HDCP_SHA1_TEXT_0, 0),
              (Some HDCP_SHA1_TEXT_8, 0)]
      else if left = 2 then
        Some [(Some HDCP_SHA1_TEXT_32,
                 txt OR (push_bit 24 (ucast bstatus0) OR push_bit 16 (ucast bstatus1))),
              (Some HDCP_SHA1_TEXT_0, 0),
              (None, 0)]
      else if left = 3 then
        Some [(Some HDCP_SHA1_TEXT_32, txt OR push_bit 24 (ucast bstatus0)),
              (Some HDCP_SHA1_TEXT_8, ucast bstatus1),
              (Some HDCP_SHA1_TEXT_0, 0),
              (Some HDCP_SHA1_TEXT_24, 0)]
      else None)"

definition sha_tail ::
  "env \<Rightarrow> rep_ctl \<Rightarrow> u8 \<Rightarrow> u8 \<Rightarrow> sha_state \<times> hdcp_state
   \<Rightarrow> (int \<times> hdcp_state) + (nat \<times> hdcp_state)" where
  "sha_tail e rep bstatus0 bstatus1 st_s =
     (let (st, s) = st_s in
      case tail_words (sha_leftovers st) (sha_text st) bstatus0 bstatus1 of
        Some ws \<Rightarrow> sha_writes e rep ws (sha_idx st) s
      | None \<Rightarrow> Inl (- EINVAL, emit (Log ''Invalid number of leftovers %d'') s))"

text \<open>
  \<^verbatim>\<open>while ((sha_idx % 64) < (64 - sizeof(sha_text)))\<close>: zero words up to the last word
  of the 64-byte block. A round writes one zero word, returns what
  \<^verbatim>\<open>intel_write_sha_text\<close> returns when that is negative, and otherwise goes on from
  the state the write leaves, with the cursor moved on by 4.
\<close>

function sha_pad ::
  "env \<Rightarrow> nat \<Rightarrow> hdcp_state \<Rightarrow> (int \<times> hdcp_state) + (nat \<times> hdcp_state)" where
  "sha_pad e idx s0 =
     (if idx mod 64 < 64 - 4
      then (if fst (intel_write_sha_text e 0 s0) < 0
            then Inl (intel_write_sha_text e 0 s0)
            else sha_pad e (idx + 4) (snd (intel_write_sha_text e 0 s0)))
      else Inr (idx, s0))"
  by pat_completeness auto
termination
proof (relation "measure (\<lambda>(e, idx, s). 64 - idx mod 64)", goal_cases)
  case 1
  show ?case by (rule wf_measure)
next
  case (2 e idx s0)
  have "(idx + 4) mod 64 = (idx mod 64 + 4) mod 64"
    by (simp only: mod_add_left_eq)
  also have "\<dots> = idx mod 64 + 4"
    using 2(1) by (intro mod_less) linarith
  finally have "(idx + 4) mod 64 = idx mod 64 + 4" .
  with 2(1) show ?case
    by (simp only: in_measure split_conv)
qed

declare sha_pad.simps [simp del]

definition intel_hdcp_auth_downstream ::
  "env \<Rightarrow> hdcp_state \<Rightarrow> (int \<times> hdcp_state) option" where
  "intel_hdcp_auth_downstream e connector =
     (case downstream_topology e connector of None \<Rightarrow> None
      | Some (Inl r) \<Rightarrow> Some r
      | Some (Inr (bstatus0, bstatus1, num_downstream, ksv_fifo, prt, s)) \<Rightarrow>
         let (rep, s) = intel_hdcp_get_repeater_ctl prt s;
             s = I915_WRITE HDCP_REP_CTL (Rep_ctl_or rep HDCP_SHA1_TEXT_32) s;
             st = \<lparr>sha_idx = 0, sha_text = 0, sha_leftovers = 0\<rparr>
         in case sha_ksv_loop e rep ksv_fifo [0..<num_downstream] (st, s) of
              Inl r \<Rightarrow> Some r
            | Inr st_s \<Rightarrow>
               (case sha_tail e rep bstatus0 bstatus1 st_s of
                  Inl r \<Rightarrow> Some r
                | Inr (idx, s) \<Rightarrow>
                   let s = I915_WRITE HDCP_REP_CTL (Rep_ctl_or rep HDCP_SHA1_TEXT_32) s in
                   (case sha_pad e idx s of
                      Inl r \<Rightarrow> Some r
                    | Inr (idx, s) \<Rightarrow>
                       let txt = of_nat ((num_downstream * 5 + 10) * 8);
                           (ret, s) = intel_write_sha_text e txt s
                       in if ret < 0 then Some (ret, s)
                          else
                           let s = I915_WRITE HDCP_REP_CTL
                                     (Rep_ctl_or rep HDCP_SHA1_COMPLETE_HASH) s;
                               (w, s) = intel_wait_for_register e s
                           in if w \<noteq> 0
                              then Some (- ETIMEDOUT,
                                         emit (Log ''Timed out waiting for SHA1 complete'') s)
                              else
                               let (v_match, s) = read_bit e s
                               in if \<not> v_match
                                  then Some (- ENXIO,
                                             emit (Log ''SHA-1 mismatch, HDCP failed'') s)
                                  else Some (0, s))))"

subsection \<open>Part 1 of the authentication\<close>

text \<open>
  The unions of \<^verbatim>\<open>intel_hdcp_auth\<close> overlay register words and the bytes that the shim
  reads and writes. They are explicit conversions here, in the byte order of the
  processors the driver runs on (least significant byte first).
\<close>

definition le_bytes :: "u32 \<Rightarrow> u8 list" where
  "le_bytes w = map (\<lambda>k. ucast (drop_bit (8 * k) w)) [0..<4]"

definition le_word :: "u8 list \<Rightarrow> u32" where
  "le_word bs = foldr (\<lambda>b w. ucast b OR push_bit 8 w) (take 4 bs) 0"

text \<open>
  The part up to the hand-over of An and Aksv to the receiver: the capability query when
  the shim has one, the two random words, the capture of An, and
  \<^verbatim>\<open>write_an_aksv\<close>. A NULL shim is dereferenced by the test of its hook (\<open>None\<close>).
\<close>

definition auth_write_an ::
  "env \<Rightarrow> port \<Rightarrow> hdcp_state \<Rightarrow> ((int \<times> hdcp_state) + hdcp_state) option" where
  "auth_write_an e prt connector =
     (case hdcp_shim connector of None \<Rightarrow> None
      | Some has_capable \<Rightarrow>
         let t = tick connector;
             s = (if has_capable then emit (Shim Hdcp_capable) (next_tick connector)
                  else connector);
             ret = shim_ret e t;
             hdcp_capable = shim_bool e t
         in if has_capable \<and> ret \<noteq> 0 then Some (Inl (ret, s))
            else if has_capable \<and> \<not> hdcp_capable
            then Some (Inl (- EINVAL, emit (Log ''Panel is not HDCP capable'') s))
            else
             let s = I915_WRITE (PORT_HDCP_ANINIT prt) (Val (random_u32 e (tick s)))
                       (next_tick s);
                 s = I915_WRITE (PORT_HDCP_ANINIT prt) (Val (random_u32 e (tick s)))
                       (next_tick s);
                 s = I915_WRITE (PORT_HDCP_CONF prt) HDCP_CONF_CAPTURE_AN s;
                 (w, s) = intel_wait_for_register e s
             in if w \<noteq> 0
                then Some (Inl (- ETIMEDOUT, emit (Log ''Timed out waiting for An'') s))
                else
                 let an_lo = reg_u32 e (tick s);
                     s = next_tick s;
                     an_hi = reg_u32 e (tick s);
                     s = next_tick s;
                     t = tick s;
                     s = emit (Shim (Write_an_aksv (le_bytes an_lo @ le_bytes an_hi)))
                           (next_tick s);
                     ret = shim_ret e t
                 in if ret \<noteq> 0 then Some (Inl (ret, s)) else Some (Inr s))"

text \<open>
  \<^verbatim>\<open>for (i = 0; i < tries; i++)\<close> with \<^verbatim>\<open>tries = 2\<close>: the second argument is the
  number of rounds left, \<open>buf\<close> the bytes of \<^verbatim>\<open>bksv.shim\<close>. The loop returns from the
  function when the read fails, breaks when the KSV is valid (\<open>True\<close>) and otherwise
  runs out with \<^verbatim>\<open>i == tries\<close> (\<open>False\<close>).
\<close>

fun read_bksv_loop ::
  "env \<Rightarrow> nat \<Rightarrow> u8 list \<Rightarrow> hdcp_state
   \<Rightarrow> (int \<times> hdcp_state) + (bool \<times> u8 list \<times> hdcp_state)" where
  "read_bksv_loop e 0 buf s = Inr (False, buf, s)"
| "read_bksv_loop e (Suc k) buf s0 =
     (let t = tick s0;
          s = emit (Shim Read_bksv) (next_tick s0);
          ret = shim_ret e t;
          buf = fill DRM_HDCP_KSV_LEN (shim_bytes e t)
      in if ret \<noteq> 0 then Inl (ret, s)
         else if intel_hdcp_is_ksv_valid buf then Inr (True, buf, s)
         else read_bksv_loop e k buf s)"

text \<open>
  The Ri' loop, \<^verbatim>\<open>tries = 3\<close>: it breaks (\<open>True\<close>) when the wait for the match does
  not time out.
\<close>

fun read_ri_loop ::
  "env \<Rightarrow> port \<Rightarrow> nat \<Rightarrow> hdcp_state \<Rightarrow> (int \<times> hdcp_state) + (bool \<times> hdcp_state)" where
  "read_ri_loop e prt 0 s = Inr (False, s)"
| "read_ri_loop e prt (Suc k) s0 =
     (let t = tick s0;
          s = emit (Shim Read_ri_prime) (next_tick s0);
          ret = shim_ret e t;
          ri = fill 2 (shim_bytes e t)
      in if ret \<noteq> 0 then Inl (ret, s)
         else
          let s = I915_WRITE (PORT_HDCP_RPRIME prt) (Val (le_word ri)) s;
              (w, s) = intel_wait_for_register e s
          in if w = 0 then Inr (True, s) else read_ri_loop e prt k s)"

text \<open>
  The rest of part 1 once a valid Bksv is at hand. The last value is whether a repeater is
  present, in which case part 2 follows.
\<close>

definition auth_after_bksv ::
  "env \<Rightarrow> port \<Rightarrow> u8 list \<Rightarrow> hdcp_state \<Rightarrow> ((int \<times> hdcp_state) + (bool \<times> hdcp_state)) option"
  where
  "auth_after_bksv e prt buf s0 =
     (case intel_hdcp_ksvs_revocated s0 buf 1 of None \<Rightarrow> None
      | Some True \<Rightarrow> Some (Inl (- EPERM, emit (Log ''BKSV is revocated'') s0))
      | Some False \<Rightarrow>
         let s = s0\<lparr>downstream_info := (downstream_info s0)
                     \<lparr>bksv := buf @ drop (length buf) (bksv (downstream_info s0))\<rparr>\<rparr>;
             s = I915_WRITE (PORT_HDCP_BKSVLO prt) (Val (le_word buf)) s;
             s = I915_WRITE (PORT_HDCP_BKSVHI prt) (Val (le_word (drop 4 buf))) s;
             t = tick s;
             s = emit (Shim Repeater_present) (next_tick s);
             ret = shim_ret e t;
             repeater_present = shim_bool e t
         in if ret \<noteq> 0 then Some (Inl (ret, s))
            else
             let (rep, s1) = intel_hdcp_get_repeater_ctl prt s;
                 s = (if repeater_present
                      then (I915_WRITE HDCP_REP_CTL (Rep_ctl rep) s1)
                             \<lparr>downstream_info := (downstream_info s1)\<lparr>is_repeater := True\<rparr>\<rparr>
                      else s);
                 t = tick s;
                 s = emit (Shim (Toggle_signalling True)) (next_tick s);
                 ret = shim_ret e t
             in if ret \<noteq> 0 then Some (Inl (ret, s))
                else
                 let s = I915_WRITE (PORT_HDCP_CONF prt) HDCP_CONF_AUTH_AND_ENC s;
                     (w, s) = intel_wait_for_register e s
                 in if w \<noteq> 0
                    then Some (Inl (- ETIMEDOUT, emit (Log ''Timed out waiting for R0 ready'') s))
                    else
                     let s = emit (Wait_remaining_ms 300) s in
                     case read_ri_loop e prt 3 s of
                       Inl r \<Rightarrow> Some (Inl r)
                     | Inr (matched, s) \<Rightarrow>
                        if \<not> matched
                        then Some (Inl (- ETIMEDOUT,
                               emit (Log ''Timed out waiting for Ri prime match (%x)'') s))
                        else
                         let (w, s) = intel_wait_for_register e s
                         in if w \<noteq> 0
                            then Some (Inl (- ETIMEDOUT,
                                   emit (Log ''Timed out waiting for encryption'') s))
                            else Some (Inr (repeater_present, s)))"

definition intel_hdcp_auth :: "env \<Rightarrow> hdcp_state \<Rightarrow> (int \<times> hdcp_state) option" where
  "intel_hdcp_auth e connector =
     (case dig_port connector of None \<Rightarrow> Some (EINVAL, connector)
      | Some prt \<Rightarrow>
         (case auth_write_an e prt connector of None \<Rightarrow> None
          | Some (Inl r) \<Rightarrow> Some r
          | Some (Inr s) \<Rightarrow>
             (case read_bksv_loop e 2 (replicate DRM_HDCP_KSV_LEN 0) s of
                Inl r \<Rightarrow> Some r
              | Inr (valid, buf, s) \<Rightarrow>
                 if \<not> valid
                 then Some (- ENODEV, emit (Log ''HDCP failed, Bksv is invalid'') s)
                 else
                  (case auth_after_bksv e prt buf s of None \<Rightarrow> None
                   | Some (Inl r) \<Rightarrow> Some r
                   | Some (Inr (repeater_present, s)) \<Rightarrow>
                      if repeater_present then intel_hdcp_auth_downstream e s
                      else Some (0, emit (Log ''HDCP is enabled (no repeater present)'') s)))))"

subsection \<open>Key loading, enabling and disabling\<close>

definition hdcp_key_loadable :: "env \<Rightarrow> hdcp_state \<Rightarrow> bool \<times> hdcp_state" where
  "hdcp_key_loadable e s = (power_well_enabled e (tick s), next_tick s)"

definition intel_hdcp_clear_keys :: "hdcp_state \<Rightarrow> hdcp_state" where
  "intel_hdcp_clear_keys s =
     I915_WRITE HDCP_KEY_STATUS HDCP_KEY_STATUS_ALL_BITS
       (I915_WRITE HDCP_KEY_CONF HDCP_CLEAR_KEYS_TRIGGER s)"

text \<open>
  \<^verbatim>\<open>intel_hdcp_load_keys\<close>. Each read of \<^verbatim>\<open>HDCP_KEY_STATUS\<close> takes the two bits
  \<^verbatim>\<open>HDCP_KEY_LOAD_DONE\<close> and \<^verbatim>\<open>HDCP_KEY_LOAD_STATUS\<close> from the environment; the wait
  for the load hands back the status it saw last.
\<close>

definition intel_hdcp_load_keys :: "env \<Rightarrow> hdcp_state \<Rightarrow> int \<times> hdcp_state" where
  "intel_hdcp_load_keys e s0 =
     (let t = tick s0; s = next_tick s0 in
      if key_load_done e t \<and> key_load_status e t then (0, s)
      else
       let hsw_bdw = (platform e = HASWELL \<or> platform e = BROADWELL);
           t = tick s;
           s = (if hsw_bdw then next_tick s else s)
       in if hsw_bdw \<and> \<not> key_load_done e t then (- ENXIO, s)
          else
           let skl_kbl = (platform e = SKYLAKE \<or> platform e = KABYLAKE);
               ret = pcode_write e (tick s);
               s = (if skl_kbl then next_tick s
                    else I915_WRITE HDCP_KEY_CONF HDCP_KEY_LOAD_TRIGGER s)
           in if skl_kbl \<and> ret \<noteq> 0
              then (ret, emit (Log ''Failed to initiate HDCP key load (%d)'') s)
              else
               let t = tick s;
                   (ret, s) = intel_wait_for_register e s
               in if ret \<noteq> 0 then (ret, s)
                  else if \<not> key_load_status e t then (- ENXIO, s)
                  else (0, I915_WRITE HDCP_KEY_CONF HDCP_AKSV_SEND_TRIGGER s))"

text \<open>\<^verbatim>\<open>memset(connector->downstream_info, 0, sizeof(struct cp_downstream_info))\<close>.\<close>

definition memset_downstream_info :: "hdcp_state \<Rightarrow> hdcp_state" where
  "memset_downstream_info s =
     s\<lparr>downstream_info :=
         \<lparr>device_count = 0, depth = 0,
          bksv = map (\<lambda>b. 0) (bksv (downstream_info s)),
          ksv_list = map (\<lambda>b. 0) (ksv_list (downstream_info s)),
          is_repeater = False\<rparr>\<rparr>"

text \<open>
  \<^verbatim>\<open>_intel_hdcp_disable\<close>. The port and the shim are dereferenced without a test, so a
  NULL port or shim is \<open>None\<close>.
\<close>

definition intel_hdcp_disable_locked :: "env \<Rightarrow> hdcp_state \<Rightarrow> (int \<times> hdcp_state) option" where
  "intel_hdcp_disable_locked e connector =
     (case dig_port connector of None \<Rightarrow> None
      | Some prt \<Rightarrow>
         let s = emit (Log ''[%s:%d] HDCP is being disabled...'') connector;
             s = I915_WRITE (PORT_HDCP_CONF prt) (Val 0) s;
             (w, s) = intel_wait_for_register e s
         in if w \<noteq> 0
            then Some (- ETIMEDOUT,
                       emit (Log ''Failed to disable HDCP, timeout clearing status'') s)
            else
             (case hdcp_shim s of None \<Rightarrow> None
              | Some has_capable \<Rightarrow>
                 let t = tick s;
                     s = emit (Shim (Toggle_signalling False)) (next_tick s);
                     ret = shim_ret e t
                 in if ret \<noteq> 0
                    then Some (ret, emit (Log ''Failed to disable HDCP signalling'') s)
                    else Some (0, emit (Log ''HDCP is disabled'') (memset_downstream_info s))))"

text \<open>The loop over \<^verbatim>\<open>KEY_LOAD_TRIES\<close> (5) of \<^verbatim>\<open>_intel_hdcp_enable\<close>.\<close>

fun load_keys_loop :: "env \<Rightarrow> nat \<Rightarrow> int \<Rightarrow> hdcp_state \<Rightarrow> int \<times> hdcp_state" where
  "load_keys_loop e 0 ret s = (ret, s)"
| "load_keys_loop e (Suc k) ret0 s0 =
     (let (ret, s) = intel_hdcp_load_keys e s0
      in if ret = 0 then (ret, s)
         else load_keys_loop e k ret (intel_hdcp_clear_keys s))"

text \<open>
  The loop over the 3 authentication attempts: success returns from the function
  (\<open>Inl\<close>); after a failure the hardware is disabled, the result of which is not
  looked at. When the attempts are used up the last error is handed on (\<open>Inr\<close>).
\<close>

fun auth_loop ::
  "env \<Rightarrow> nat \<Rightarrow> int \<Rightarrow> hdcp_state \<Rightarrow> ((int \<times> hdcp_state) + (int \<times> hdcp_state)) option" where
  "auth_loop e 0 ret s = Some (Inr (ret, s))"
| "auth_loop e (Suc k) ret0 s0 =
     (case intel_hdcp_auth e s0 of None \<Rightarrow> None
      | Some (ret, s) \<Rightarrow>
         if ret = 0
         then Some (Inl (0, emit (Schedule_delayed_work Hdcp_check_work)
                             (emit (Schedule_work Hdcp_prop_work)
                                (s\<lparr>hdcp_value := ENABLED\<rparr>))))
         else
          (case intel_hdcp_disable_locked e (emit (Log ''HDCP Auth failure (%d)'') s) of
             None \<Rightarrow> None
           | Some (r, s) \<Rightarrow> auth_loop e k ret s))"

definition intel_hdcp_enable_locked :: "env \<Rightarrow> hdcp_state \<Rightarrow> (int \<times> hdcp_state) option" where
  "intel_hdcp_enable_locked e connector =
     (let s = emit (Log ''[%s:%d] HDCP is being enabled...'') connector;
          (loadable, s) = hdcp_key_loadable e s
      in if \<not> loadable
         then Some (- ENXIO, emit (Log ''HDCP key Load is not possible'') s)
         else
          let (ret, s) = load_keys_loop e 5 0 s
          in if ret \<noteq> 0
             then Some (ret, emit (Log ''Could not load HDCP keys, (%d)'') s)
             else
              (case auth_loop e 3 ret s of None \<Rightarrow> None
               | Some (Inl r) \<Rightarrow> Some r
               | Some (Inr (ret, s)) \<Rightarrow>
                  Some (ret, emit (Log ''HDCP authentication failed (%d tries/%d)'')
                               (memset_downstream_info s))))"

text \<open>
  \<^verbatim>\<open>intel_hdcp_disable\<close>, the disable of the session interface
  (\<open>intel_hdcp_disable_locked\<close> above is \<^verbatim>\<open>_intel_hdcp_disable\<close>, whose name cannot
  begin with an underscore here; likewise \<open>intel_hdcp_enable_locked\<close> for
  \<^verbatim>\<open>_intel_hdcp_enable\<close>).
\<close>

definition intel_hdcp_disable :: "env \<Rightarrow> hdcp_state \<Rightarrow> (int \<times> hdcp_state) option" where
  "intel_hdcp_disable e connector =
     (if hdcp_shim connector = None then Some (- ENOENT, connector)
      else
       case (if hdcp_value connector \<noteq> UNDESIRED
             then intel_hdcp_disable_locked e (connector\<lparr>hdcp_value := UNDESIRED\<rparr>)
             else Some (0, connector)) of
         None \<Rightarrow> None
       | Some (ret, s) \<Rightarrow> Some (ret, emit (Cancel_delayed_work_sync Hdcp_check_work) s))"

subsection \<open>Part 3: the link check\<close>

text \<open>
  \<^verbatim>\<open>intel_hdcp_check_link\<close>. The port is read from \<^verbatim>\<open>intel_dig_port\<close> in the
  declarations, before the test of the shim.
\<close>

definition intel_hdcp_check_link :: "env \<Rightarrow> hdcp_state \<Rightarrow> (int \<times> hdcp_state) option" where
  "intel_hdcp_check_link e connector =
     (case dig_port connector of None \<Rightarrow> None
      | Some prt \<Rightarrow>
         if hdcp_shim connector = None then Some (- ENOENT, connector)
         else if hdcp_value connector = UNDESIRED then Some (0, connector)
         else
          let (enc, s) = read_bit e connector
          in if \<not> enc
             then Some (- ENXIO,
                    emit (Schedule_work Hdcp_prop_work)
                      ((emit (Log ''%s:%d HDCP check failed: link is not encrypted,%x'') s)
                         \<lparr>hdcp_value := DESIRED\<rparr>))
             else
              let t = tick s;
                  s = emit (Shim Check_link) (next_tick s)
              in if shim_bool e t
                 then Some (0, (if hdcp_value s \<noteq> UNDESIRED
                                then emit (Schedule_work Hdcp_prop_work)
                                       (s\<lparr>hdcp_value := ENABLED\<rparr>)
                                else s))
                 else
                  (case intel_hdcp_disable_locked e
                          (emit (Log ''[%s:%d] HDCP link failed, retrying authentication'') s) of
                     None \<Rightarrow> None
                   | Some (ret, s) \<Rightarrow>
                      if ret \<noteq> 0
                      then Some (ret, emit (Schedule_work Hdcp_prop_work)
                                   ((emit (Log ''Failed to disable hdcp (%d)'') s)
                                      \<lparr>hdcp_value := DESIRED\<rparr>))
                      else
                       (case intel_hdcp_enable_locked e s of None \<Rightarrow> None
                        | Some (ret, s) \<Rightarrow>
                           if ret \<noteq> 0
                           then Some (ret, emit (Schedule_work Hdcp_prop_work)
                                        ((emit (Log ''Failed to enable hdcp (%d)'') s)
                                           \<lparr>hdcp_value := DESIRED\<rparr>))
                           else Some (ret, s))))"

section \<open>Well-formed inputs and concrete runs\<close>

definition vrl_segment :: "u8 list list \<Rightarrow> u8 list" where
  "vrl_segment ksvs = of_nat (length ksvs) # concat ksvs"

definition vrls :: "u8 list list list \<Rightarrow> u8 list" where
  "vrls segs = concat (map vrl_segment segs)"

definition wf_segments :: "u8 list list list \<Rightarrow> bool" where
  "wf_segments segs \<longleftrightarrow>
     segs \<noteq> [] \<and> (\<forall>seg\<in>set segs. length seg < 256 \<and> (\<forall>k\<in>set seg. length k = 5))"

text \<open>A well-formed SRM: header, 24-bit length, VRL segments, signature.\<close>

definition wf_srm :: "u8 list \<Rightarrow> u8 list list list \<Rightarrow> bool" where
  "wf_srm data segs \<longleftrightarrow>
     (\<exists>hdr sig. data = hdr @ vrls segs @ sig
        \<and> length hdr = sizeof_cp_srm_header + DRM_HDCP_1_4_VRL_LENGTH_SIZE
        \<and> length sig = DRM_HDCP_1_4_DCP_SIG_SIZE
        \<and> srm_id hdr = DRM_HDCP_1_4_SRM_ID
        \<and> vrl_length_field hdr
            = DRM_HDCP_1_4_VRL_LENGTH_SIZE + DRM_HDCP_1_4_DCP_SIG_SIZE + length (vrls segs))
     \<and> wf_segments segs \<and> concat segs \<noteq> []"

definition zero_downstream_info :: cp_downstream_info where
  "zero_downstream_info =
     \<lparr>device_count = 0, depth = 0, bksv = replicate 5 0, ksv_list = replicate 635 0,
      is_repeater = False\<rparr>"

definition idle_connector :: hdcp_state where
  "idle_connector =
     \<lparr>hdcp_shim = Some True, dig_port = Some PORT_B, hdcp_value = UNDESIRED,
      content_protection = UNDESIRED, downstream_info = zero_downstream_info,
      revocated_ksv_list = Null, revocated_ksv_cnt = 0, srm_blob_id = 0,
      tick = 0, trace = []\<rparr>"

definition quiet_env :: env where
  "quiet_env =
     \<lparr>platform = SKYLAKE, power_well_enabled = (\<lambda>t. True), key_load_done = (\<lambda>t. True),
      key_load_status = (\<lambda>t. True), pcode_write = (\<lambda>t. 0), wait_ret = (\<lambda>t. 0),
      reg_u32 = (\<lambda>t. 0), reg_bit = (\<lambda>t. True), random_u32 = (\<lambda>t. 0),
      kzalloc_ok = (\<lambda>t. True), blobs = (\<lambda>i. None), shim_ret = (\<lambda>t. 0),
      shim_bool = (\<lambda>t. True), shim_bytes = (\<lambda>t. []), shim_u32 = (\<lambda>t. 0),
      property_ret = (\<lambda>t. 0)\<rparr>"

definition dcp_signature :: "u8 list" where
  "dcp_signature = map of_nat [161..<201]"

definition srm_overrun :: "u8 list" where
  "srm_overrun = [0x80, 0, 0, 1, 0] @ [0, 0, 44] @ [1] @ dcp_signature"

definition srm_overrun_blob :: "u8 list" where
  "srm_overrun_blob = [0x80, 0, 0, 1, 0] @ [0, 0, 44] @ [255] @ dcp_signature"

definition conn_with_store :: hdcp_state where
  "conn_with_store =
     idle_connector\<lparr>revocated_ksv_list := Live [0x0F, 0xF0, 0x33, 0xCC, 0x55],
                     revocated_ksv_cnt := 1, srm_blob_id := 7\<rparr>"

definition srm_one_ksv :: "u8 list" where
  "srm_one_ksv = [0x80, 0, 0, 1, 0] @ [0, 0, 49] @ [1, 0xAA, 0x55, 0xF0, 0x0F, 0x3C] @ dcp_signature"

definition env_nomem :: env where
  "env_nomem = quiet_env\<lparr>kzalloc_ok := (\<lambda>t. False),
                           blobs := (\<lambda>i. if i = 9 then Some srm_one_ksv else None)\<rparr>"

definition srm_bad_id :: "u8 list" where
  "srm_bad_id = [0x10, 0, 0, 1, 0] @ [0, 0, 49] @ [1, 0xAA, 0x55, 0xF0, 0x0F, 0x3C] @ dcp_signature"

definition env_bad_id :: env where
  "env_bad_id = quiet_env\<lparr>blobs := (\<lambda>i. if i = 9 then Some srm_bad_id else None)\<rparr>"

definition holds_store :: "hdcp_state \<Rightarrow> u8 list list \<Rightarrow> bool" where
  "holds_store c es \<longleftrightarrow>
     revocated_ksv_list c = Live (concat es) \<and> revocated_ksv_cnt c = length es
     \<and> (\<forall>k\<in>set es. length k = 5)"

section \<open>Properties\<close>

subsection \<open>Properties of the KSV validator\<close>

lemma hweight8_bit:
  "hweight8 w = (\<Sum>i\<leftarrow>[0..<8]. if bit w i then 1 else 0)"
  unfolding hweight8_def
  by (rule arg_cong [where f = sum_list], rule map_cong)
     (auto simp: bit_iff_and_push_bit_not_eq_0)

lemma hweight8_card: "hweight8 w = card {i. bit w i}"
proof -
  have sub: "{i. bit w i} = {i \<in> set [0..<8]. bit w i}"
    by (auto dest: bit_imp_le_length)
  have "(\<Sum>i\<leftarrow>[0..<8]. if bit w i then 1 else 0) = card {i \<in> set [0..<8]. bit w i}"
    by (subst sum_list_map_filter' [symmetric], simp add: sum_list_triv)
       (simp add: distinct_card [symmetric] set_filter del: upt.simps upt_Suc)
  then show ?thesis
    using sub by (simp add: hweight8_bit)
qed

lemma ksv_ones_5:
  "ksv_ones [a, b, c, d, e] DRM_HDCP_KSV_LEN 0 =
     hweight8 a + hweight8 b + hweight8 c + hweight8 d + hweight8 e"
  by (simp add: DRM_HDCP_KSV_LEN_def eval_nat_numeral)

text \<open>
  C4. For every KSV of 5 bytes, the validator answers true exactly when the population
  counts of the 5 bytes (the number of set bits of each) add up to 20. The validator is
  a function of the 5 bytes alone: it reads nothing else and changes no state.
\<close>

theorem ksv_valid_iff_popcount_20:
  assumes "length ksv = 5"
  shows "intel_hdcp_is_ksv_valid ksv \<longleftrightarrow> (\<Sum>b\<leftarrow>ksv. card {i. bit b i}) = 20"
proof -
  from assms obtain a b c d e where ksv: "ksv = [a, b, c, d, e]"
    by (auto simp: length_Suc_conv eval_nat_numeral)
  show ?thesis
    unfolding intel_hdcp_is_ksv_valid_def ksv Let_def ksv_ones_5
    by (simp add: hweight8_card)
qed

theorem ksv_valid_iff_popcount_20_witness:
  "length [0x0F, 0xF0, 0x33, 0xCC, 0x55 :: u8] = 5
   \<and> intel_hdcp_is_ksv_valid [0x0F, 0xF0, 0x33, 0xCC, 0x55]
   \<and> (\<Sum>b\<leftarrow>[0x0F, 0xF0, 0x33, 0xCC, 0x55 :: u8]. card {i. bit b i}) = 20"
proof -
  have v: "intel_hdcp_is_ksv_valid [0x0F, 0xF0, 0x33, 0xCC, 0x55]"
    by code_simp
  show ?thesis
    using v ksv_valid_iff_popcount_20 [of "[0x0F, 0xF0, 0x33, 0xCC, 0x55]"] by simp
qed

subsection \<open>Properties of the revocation store and the SRM parser\<close>

lemma ex_less_Suc_shift: "(\<exists>a<Suc m. P a) \<longleftrightarrow> P 0 \<or> (\<exists>a<m. P (Suc a))"
  by (auto simp: less_Suc_eq_0_disj)

lemma ksv_bytes_match_chunk:
  assumes "ko + 5 \<le> length ksvs" "ro + 5 \<le> length rvl"
  shows "ksv_bytes_match ksvs ko rvl ro DRM_HDCP_KSV_LEN
         = Some (take 5 (drop ko ksvs) = take 5 (drop ro rvl))"
proof -
  have eq: "(take 5 (drop ko ksvs) = take 5 (drop ro rvl)) \<longleftrightarrow>
        (\<forall>j<5. ksvs ! (ko + j) = rvl ! (ro + j))"
    using assms by (auto simp: list_eq_iff_nth_eq min_def)
  have all5: "\<And>P. (\<forall>j<5::nat. P j) \<longleftrightarrow> P 0 \<and> P 1 \<and> P 2 \<and> P 3 \<and> P 4"
    by (auto simp: eval_nat_numeral less_Suc_eq)
  show ?thesis
    using assms unfolding eq all5
    by (auto simp: DRM_HDCP_KSV_LEN_def eval_nat_numeral rd_def Let_def)
qed

lemma rev_list_scan_chunk:
  assumes "ko + 5 \<le> length ksvs" "ro + 5 * n \<le> length rvl"
  shows "rev_list_scan ksvs ko rvl ro n
         = Some (\<exists>i<n. take 5 (drop ko ksvs) = take 5 (drop (ro + 5 * i) rvl))"
  using assms
proof (induction n arbitrary: ro)
  case 0
  then show ?case by simp
next
  case (Suc n)
  have m: "ksv_bytes_match ksvs ko rvl ro DRM_HDCP_KSV_LEN
         = Some (take 5 (drop ko ksvs) = take 5 (drop ro rvl))"
    using Suc.prems by (intro ksv_bytes_match_chunk) auto
  have ih: "rev_list_scan ksvs ko rvl (ro + 5) n
         = Some (\<exists>i<n. take 5 (drop ko ksvs) = take 5 (drop (ro + 5 + 5 * i) rvl))"
    using Suc.prems Suc.IH [of "ro + 5"] by simp
  have ex: "(\<exists>i<Suc n. take 5 (drop ko ksvs) = take 5 (drop (ro + 5 * i) rvl)) \<longleftrightarrow>
     take 5 (drop ko ksvs) = take 5 (drop ro rvl)
     \<or> (\<exists>i<n. take 5 (drop ko ksvs) = take 5 (drop (ro + 5 + 5 * i) rvl))"
    unfolding ex_less_Suc_shift [of n] by (simp add: add.assoc)
  show ?case
    unfolding ex
    by (cases "take 5 (drop ko ksvs) = take 5 (drop ro rvl)")
       (simp_all add: m [unfolded DRM_HDCP_KSV_LEN_def] ih DRM_HDCP_KSV_LEN_def)
qed

lemma ksvs_scan_chunk:
  assumes "ko + 5 * m \<le> length ksvs" "5 * n \<le> length rvl"
  shows "ksvs_scan ksvs ko rvl n m
         = Some (\<exists>a<m. \<exists>i<n. take 5 (drop (ko + 5 * a) ksvs) = take 5 (drop (5 * i) rvl))"
  using assms
proof (induction m arbitrary: ko)
  case 0
  then show ?case by simp
next
  case (Suc m)
  define P where "P a \<longleftrightarrow> (\<exists>i<n. take 5 (drop (ko + 5 * a) ksvs) = take 5 (drop (5 * i) rvl))"
    for a
  have r: "rev_list_scan ksvs ko rvl 0 n = Some (P 0)"
    using Suc.prems rev_list_scan_chunk [of ko ksvs 0 n rvl] by (simp add: P_def)
  have ih: "ksvs_scan ksvs (ko + 5) rvl n m = Some (\<exists>a<m. P (Suc a))"
    using Suc.prems Suc.IH [of "ko + 5"] by (simp add: P_def add.assoc)
  have "ksvs_scan ksvs ko rvl n (Suc m) = Some (\<exists>a<Suc m. P a)"
    unfolding ex_less_Suc_shift [of m]
    by (cases "P 0") (simp_all add: r ih DRM_HDCP_KSV_LEN_def)
  then show ?case by (simp add: P_def)
qed

lemma concat_chunk:
  assumes "\<forall>e\<in>set es. length e = 5" "i < length es"
  shows "take 5 (drop (5 * i) (concat es)) = es ! i"
  using assms
proof (induction es arbitrary: i)
  case Nil
  then show ?case by simp
next
  case (Cons e es)
  show ?case
  proof (cases i)
    case 0
    then show ?thesis using Cons.prems by simp
  next
    case (Suc k)
    then show ?thesis using Cons.prems Cons.IH [of k] by simp
  qed
qed

lemma length_concat_5:
  "\<forall>e\<in>set es. length e = 5 \<Longrightarrow> length (concat es) = 5 * length es"
  by (induction es) auto

lemma passes_agree:
  "ksv_count_loop data off vl p k = Some c \<Longrightarrow>
   ksvs_copy_loop data off vl p k dst = Some (c', bs) \<Longrightarrow> c' = c"
proof (induction data off vl p k arbitrary: dst rule: ksv_count_loop.induct)
  case (1 data off vl p k)
  from "1.prems" obtain b where b: "rd data off = Some b"
    by (cases "rd data off") (simp_all add: ksv_count_loop.simps [of data off])
  from "1.prems"(2) b obtain seg where
    seg: "rd_range data (off + 1) (unat b * DRM_HDCP_KSV_LEN) = Some seg"
    by (cases "rd_range data (off + 1) (unat b * DRM_HDCP_KSV_LEN)")
       (simp_all add: ksvs_copy_loop.simps [of data off] Let_def)
  show ?case
  proof (cases "p + (unat b * DRM_HDCP_KSV_LEN + 1) < vl")
    case True
    have c1: "ksv_count_loop data (off + (unat b * DRM_HDCP_KSV_LEN + 1)) vl
                (p + (unat b * DRM_HDCP_KSV_LEN + 1)) (k + unat b) = Some c"
      using "1.prems"(1) b True by (simp add: ksv_count_loop.simps [of data off] Let_def)
    have c2: "ksvs_copy_loop data (off + (unat b * DRM_HDCP_KSV_LEN + 1)) vl
                (p + (unat b * DRM_HDCP_KSV_LEN + 1)) (k + unat b) (dst @ seg) = Some (c', bs)"
      using "1.prems"(2) b seg True
      by (simp add: ksvs_copy_loop.simps [of data off] Let_def add.commute add.left_commute)
    show ?thesis
      using "1.IH" [OF b refl refl True c1 c2] .
  next
    case False
    then show ?thesis
      using "1.prems" b seg
      by (simp add: ksv_count_loop.simps [of data off] ksvs_copy_loop.simps [of data off] Let_def)
  qed
qed

lemma length_vrl_segment:
  "\<forall>k\<in>set seg. length k = 5 \<Longrightarrow> length (vrl_segment seg) = 5 * length seg + 1"
  by (simp add: vrl_segment_def length_concat_5)

lemma unat_of_nat_u8: "n < 256 \<Longrightarrow> unat (of_nat n :: u8) = n"
  by (simp add: unat_of_nat)

lemma rd_at_pre: "rd (pre @ b # xs) (length pre) = Some b"
  by (simp add: rd_def)

lemma length_vrls_Cons:
  "\<forall>k\<in>set seg. length k = 5 \<Longrightarrow>
   length (vrls (seg # rest)) = (5 * length seg + 1) + length (vrls rest)"
  by (simp add: vrls_def length_vrl_segment)

lemma vrls_pos: "rest \<noteq> [] \<Longrightarrow> 0 < length (vrls rest)"
  by (cases rest) (simp_all add: vrls_def vrl_segment_def)

lemma ksv_count_loop_vrls:
  assumes "wf_segments segs"
  shows "ksv_count_loop (pre @ vrls segs @ post) (length pre) (p + length (vrls segs)) p k
         = Some (k + length (concat segs))"
  using assms
proof (induction segs arbitrary: pre p k)
  case Nil
  then show ?case by (simp add: wf_segments_def)
next
  case (Cons seg rest)
  define D where "D = pre @ vrls (seg # rest) @ post"
  define n where "n = length seg"
  from Cons.prems have seg: "n < 256" "\<forall>k\<in>set seg. length k = 5"
    by (simp_all add: wf_segments_def n_def)
  have lenv: "length (vrls (seg # rest)) = (5 * n + 1) + length (vrls rest)"
    using seg by (simp add: length_vrls_Cons n_def)
  have rd0: "rd D (length pre) = Some (of_nat n)"
    by (simp add: D_def n_def vrls_def vrl_segment_def rd_at_pre)
  have step: "ksv_count_loop D (length pre) (p + length (vrls (seg # rest))) p k =
      (if 0 < length (vrls rest)
       then ksv_count_loop D (length pre + (5 * n + 1)) (p + length (vrls (seg # rest)))
              (p + (5 * n + 1)) (k + n)
       else Some (k + n))"
    by (subst ksv_count_loop.simps)
       (simp add: rd0 Let_def unat_of_nat_u8 seg DRM_HDCP_KSV_LEN_def mult.commute lenv)
  show ?case
  proof (cases "rest = []")
    case True
    then show ?thesis
      using step by (simp add: D_def n_def vrls_def)
  next
    case False
    then have wf: "wf_segments rest"
      using Cons.prems by (simp add: wf_segments_def)
    have D2: "D = (pre @ vrl_segment seg) @ vrls rest @ post"
      by (simp add: D_def vrls_def)
    have l2: "length (pre @ vrl_segment seg) = length pre + (5 * n + 1)"
      using seg by (simp add: length_vrl_segment n_def)
    have ih: "ksv_count_loop D (length pre + (5 * n + 1))
                ((p + (5 * n + 1)) + length (vrls rest)) (p + (5 * n + 1)) (k + n)
              = Some (k + n + length (concat rest))"
      unfolding D2 l2 [symmetric] by (rule Cons.IH [OF wf])
    have "p + length (vrls (seg # rest)) = (p + (5 * n + 1)) + length (vrls rest)"
      by (simp add: lenv)
    then show ?thesis
      using step ih vrls_pos [OF False] by (simp add: D_def n_def add.assoc)
  qed
qed

lemma rd_range_at: "rd_range (pre @ xs @ post) (length pre) (length xs) = Some xs"
  by (simp add: rd_range_def)

lemma ksvs_copy_loop_vrls:
  assumes "wf_segments segs"
  shows "ksvs_copy_loop (pre @ vrls segs @ post) (length pre) (p + length (vrls segs)) p k dst
         = Some (k + length (concat segs), dst @ concat (concat segs))"
  using assms
proof (induction segs arbitrary: pre p k dst)
  case Nil
  then show ?case by (simp add: wf_segments_def)
next
  case (Cons seg rest)
  define D where "D = pre @ vrls (seg # rest) @ post"
  define n where "n = length seg"
  from Cons.prems have seg: "n < 256" "\<forall>k\<in>set seg. length k = 5"
    by (simp_all add: wf_segments_def n_def)
  have lenc: "length (concat seg) = 5 * n"
    using seg by (simp add: length_concat_5 n_def)
  have lenv: "length (vrls (seg # rest)) = (5 * n + 1) + length (vrls rest)"
    using seg by (simp add: length_vrls_Cons n_def)
  have rd0: "rd D (length pre) = Some (of_nat n)"
    by (simp add: D_def n_def vrls_def vrl_segment_def rd_at_pre)
  have D1: "D = (pre @ [of_nat n]) @ concat seg @ (vrls rest @ post)"
    by (simp add: D_def vrls_def vrl_segment_def n_def)
  have "rd_range D (length (pre @ [of_nat n :: u8])) (length (concat seg)) = Some (concat seg)"
    unfolding D1 by (rule rd_range_at)
  then have rdr: "rd_range D (Suc (length pre)) (n * 5) = Some (concat seg)"
    by (simp add: lenc mult.commute)
  have step: "ksvs_copy_loop D (length pre) (p + length (vrls (seg # rest))) p k dst =
      (if 0 < length (vrls rest)
       then ksvs_copy_loop D (length pre + (5 * n + 1)) (p + length (vrls (seg # rest)))
              (p + (5 * n + 1)) (k + n) (dst @ concat seg)
       else Some (k + n, dst @ concat seg))"
    by (subst ksvs_copy_loop.simps)
       (simp add: rd0 rdr Let_def unat_of_nat_u8 seg DRM_HDCP_KSV_LEN_def lenv mult.commute)
  show ?case
  proof (cases "rest = []")
    case True
    then show ?thesis
      using step by (simp add: D_def n_def vrls_def)
  next
    case False
    then have wf: "wf_segments rest"
      using Cons.prems by (simp add: wf_segments_def)
    have D2: "D = (pre @ vrl_segment seg) @ vrls rest @ post"
      by (simp add: D_def vrls_def)
    have l2: "length (pre @ vrl_segment seg) = length pre + (5 * n + 1)"
      using seg by (simp add: length_vrl_segment n_def)
    have ih: "ksvs_copy_loop D (length pre + (5 * n + 1))
                ((p + (5 * n + 1)) + length (vrls rest)) (p + (5 * n + 1)) (k + n)
                (dst @ concat seg)
              = Some (k + n + length (concat rest), (dst @ concat seg) @ concat (concat rest))"
      unfolding D2 l2 [symmetric] by (rule Cons.IH [OF wf])
    show ?thesis
      using step ih vrls_pos [OF False] by (simp add: D_def n_def add.assoc lenv)
  qed
qed

lemma parse_wf_srm:
  assumes wf: "wf_srm data segs" and ok: "kzalloc_ok e (tick c)"
      and nf: "revocated_ksv_list c \<noteq> Freed"
  shows "\<exists>c'. intel_hdcp_parse_srm e c data = Some (0, c')
          \<and> revocated_ksv_list c' = Live (concat (concat segs))
          \<and> revocated_ksv_cnt c' = length (concat segs)"
proof -
  from wf obtain hdr sig where
    d: "data = hdr @ vrls segs @ sig" and
    lh: "length hdr = 8" and ls: "length sig = 40" and
    id: "srm_id hdr = DRM_HDCP_1_4_SRM_ID" and
    vl: "vrl_length_field hdr = 43 + length (vrls segs)" and
    ws: "wf_segments segs" and ne: "concat segs \<noteq> []"
    by (auto simp: wf_srm_def sizeof_cp_srm_header_def DRM_HDCP_1_4_VRL_LENGTH_SIZE_def
          DRM_HDCP_1_4_DCP_SIG_SIZE_def)
  have pos: "0 < length (vrls segs)"
    using ws by (intro vrls_pos) (simp add: wf_segments_def)
  have id': "srm_id data = DRM_HDCP_1_4_SRM_ID"
    using id lh by (simp add: srm_id_def d nth_append)
  have vl': "vrl_length_field data = 43 + length (vrls segs)"
    using vl lh by (simp add: vrl_length_field_def d nth_append sizeof_cp_srm_header_def)
  define m where "m = length (concat segs)"
  have m: "m \<noteq> 0"
    using ne by (simp add: m_def)
  have p1: "intel_hdcp_get_revocated_ksv_count data 8 (length (vrls segs)) = Some m"
    using ksv_count_loop_vrls [OF ws, of hdr sig 0 0] lh
    by (simp add: intel_hdcp_get_revocated_ksv_count_def d m_def)
  have p2: "intel_hdcp_get_revocated_ksvs data 8 (length (vrls segs))
            = Some (m, concat (concat segs))"
    using ksvs_copy_loop_vrls [OF ws, of hdr sig 0 0 "[]"] lh
    by (simp add: intel_hdcp_get_revocated_ksvs_def d m_def)
  have len: "length data = 48 + length (vrls segs)"
    using lh ls by (simp add: d)
  have "\<exists>c'. intel_hdcp_parse_srm e c data = Some (0, c')
          \<and> revocated_ksv_list c' = Live (concat (concat segs))
          \<and> revocated_ksv_cnt c' = m"
    using pos m ok nf
    by (simp add: intel_hdcp_parse_srm_def len id' vl' p1 p2 Let_def sizeof_cp_srm_header_def
          DRM_HDCP_1_4_VRL_LENGTH_SIZE_def DRM_HDCP_1_4_DCP_SIG_SIZE_def emit_def next_tick_def)
  then show ?thesis
    by (simp add: m_def)
qed

text \<open>
  C3. The claim is that a segment whose device count overruns what is left of the
  declared payload makes the parse fail. The code has no such test: both passes stop only
  once \<^verbatim>\<open>parsed_bytes\<close> has reached the length. In \<open>srm_overrun\<close> the header and both
  length checks pass, the declared payload is one byte and that byte announces one KSV (a
  segment of 6 bytes): the parse returns 0 and the store holds the first five bytes of the
  signature. In \<open>srm_overrun_blob\<close> the byte announces 255 KSVs and the copy of the
  second pass reads beyond the end of the blob.
\<close>

theorem parse_accepts_overrunning_segment:
  "map_option (\<lambda>(ret, c). (ret, revocated_ksv_list c, revocated_ksv_cnt c))
       (intel_hdcp_parse_srm quiet_env idle_connector srm_overrun)
     = Some (0, Live [161, 162, 163, 164, 165], 1)
   \<and> intel_hdcp_parse_srm quiet_env idle_connector srm_overrun_blob = None"
  by code_simp

lemma parse_fail_cases:
  assumes "intel_hdcp_parse_srm e c data = Some (ret, c1)" "ret \<noteq> 0"
  shows "srm_blob_id c1 = srm_blob_id c \<and>
         (if ret = - ENOMEM then revocated_ksv_list c1 = Null
          else revocated_ksv_list c1 = revocated_ksv_list c
               \<and> revocated_ksv_cnt c1 = revocated_ksv_cnt c)"
  using assms
  by (auto simp: intel_hdcp_parse_srm_def Let_def emit_def next_tick_def
        intel_hdcp_get_revocated_ksv_count_def intel_hdcp_get_revocated_ksvs_def
      split: if_splits option.splits prod.splits dest: passes_agree)

text \<open>
  C2, as amended. When the parse of the blob fails, the recorded blob identifier is what
  it was. When the failure is one of the structural rejections (every error but
  \<^verbatim>\<open>-ENOMEM\<close>), the list and the count of the store are what they were. When the
  allocation of the new list fails, the old list has been released already: the store is
  not kept, and the revocation check answers false to every query.
\<close>

theorem failed_parse_keeps_blob_id:
  assumes "blobs e blob_id = Some data"
      and "intel_hdcp_parse_srm e c data = Some (ret, c1)"
      and "ret \<noteq> 0"
  shows "\<exists>c'. intel_hdcp_update_srm e c blob_id = Some c'
           \<and> srm_blob_id c' = srm_blob_id c
           \<and> (if ret = - ENOMEM
               then \<forall>ksvs n. intel_hdcp_ksvs_revocated c' ksvs n = Some False
               else revocated_ksv_list c' = revocated_ksv_list c
                    \<and> revocated_ksv_cnt c' = revocated_ksv_cnt c)"
  using assms parse_fail_cases [OF assms(2,3)]
  by (auto simp: intel_hdcp_update_srm_def intel_hdcp_ksvs_revocated_def split: if_splits)

text \<open>
  The claim as stated fails when \<^verbatim>\<open>kzalloc\<close> fails: the parse returns
  \<^verbatim>\<open>-ENOMEM\<close> and the list that held one KSV is gone.
\<close>

theorem nomem_destroys_store:
  "map_option fst (intel_hdcp_parse_srm env_nomem conn_with_store srm_one_ksv) = Some (- ENOMEM)
   \<and> map_option revocated_ksv_list (intel_hdcp_update_srm env_nomem conn_with_store 9) = Some Null
   \<and> revocated_ksv_list conn_with_store = Live [0x0F, 0xF0, 0x33, 0xCC, 0x55]"
  by code_simp

theorem failed_parse_keeps_blob_id_witness:
  "blobs env_bad_id 9 = Some srm_bad_id
   \<and> (\<exists>c'. intel_hdcp_update_srm env_bad_id conn_with_store 9 = Some c'
          \<and> srm_blob_id c' = 7
          \<and> revocated_ksv_list c' = Live [0x0F, 0xF0, 0x33, 0xCC, 0x55]
          \<and> revocated_ksv_cnt c' = 1)"
proof -
  have b: "blobs env_bad_id 9 = Some srm_bad_id"
    by (simp add: env_bad_id_def)
  have p: "intel_hdcp_parse_srm env_bad_id conn_with_store srm_bad_id
      = Some (- EINVAL, emit (Log ''Invalid srm_id'')
           (emit (Log ''SRM ID: 0x%x, SRM Ver: 0x%x, SRM Gen No: 0x%x'') conn_with_store))"
    by code_simp
  have n: "- EINVAL \<noteq> (0::int)"
    by simp
  show ?thesis
    using b failed_parse_keeps_blob_id [OF b p n]
    by (simp add: conn_with_store_def idle_connector_def)
qed

lemma revocated_on_store:
  assumes "holds_store c es" "\<forall>k\<in>set ks. length k = 5"
  shows "intel_hdcp_ksvs_revocated c (concat ks) (length ks) = Some (\<exists>k\<in>set ks. k \<in> set es)"
proof -
  from assms have l: "revocated_ksv_list c = Live (concat es)"
    and n: "revocated_ksv_cnt c = length es" and e5: "\<forall>k\<in>set es. length k = 5"
    by (simp_all add: holds_store_def)
  have scan: "ksvs_scan (concat ks) 0 (concat es) (length es) (length ks)
      = Some (\<exists>a<length ks. \<exists>i<length es.
                take 5 (drop (0 + 5 * a) (concat ks)) = take 5 (drop (5 * i) (concat es)))"
    using assms(2) e5 by (intro ksvs_scan_chunk) (simp_all add: length_concat_5)
  have "(\<exists>a<length ks. \<exists>i<length es.
            take 5 (drop (0 + 5 * a) (concat ks)) = take 5 (drop (5 * i) (concat es)))
        \<longleftrightarrow> (\<exists>a<length ks. \<exists>i<length es. ks ! a = es ! i)"
    using assms(2) e5 by (simp add: concat_chunk cong: conj_cong)
  also have "\<dots> \<longleftrightarrow> (\<exists>k\<in>set ks. k \<in> set es)"
    by (metis in_set_conv_nth)
  finally show ?thesis
    using scan l n
    by (cases "length es = 0") (auto simp: intel_hdcp_ksvs_revocated_def Let_def)
qed

text \<open>
  C5. For every store of 5-byte entries and every list of 5-byte candidates, the
  revocation check answers true exactly when some candidate equals some entry. And when a
  well-formed SRM with at least one KSV is parsed, the check on the new store answers true
  to a KSV of the SRM and false to every 5-byte value that is not one of its KSVs.
\<close>

theorem revocated_iff_candidate_in_store:
  "(holds_store c es \<and> (\<forall>k\<in>set ks. length k = 5) \<longrightarrow>
      intel_hdcp_ksvs_revocated c (concat ks) (length ks) = Some (\<exists>k\<in>set ks. k \<in> set es))
   \<and> (wf_srm data segs \<and> kzalloc_ok e (tick c0) \<and> revocated_ksv_list c0 \<noteq> Freed
        \<and> length k = 5 \<longrightarrow>
      (\<exists>c'. intel_hdcp_parse_srm e c0 data = Some (0, c')
            \<and> intel_hdcp_ksvs_revocated c' k 1 = Some (k \<in> set (concat segs))))"
proof (intro conjI impI)
  assume "holds_store c es \<and> (\<forall>k\<in>set ks. length k = 5)"
  then show "intel_hdcp_ksvs_revocated c (concat ks) (length ks)
             = Some (\<exists>k\<in>set ks. k \<in> set es)"
    by (simp add: revocated_on_store)
next
  assume a: "wf_srm data segs \<and> kzalloc_ok e (tick c0) \<and> revocated_ksv_list c0 \<noteq> Freed
        \<and> length k = 5"
  then obtain c' where p: "intel_hdcp_parse_srm e c0 data = Some (0, c')"
    and l: "revocated_ksv_list c' = Live (concat (concat segs))"
    and n: "revocated_ksv_cnt c' = length (concat segs)"
    using parse_wf_srm [of data segs e c0] by auto
  from a have "\<forall>x\<in>set (concat segs). length x = 5"
    by (auto simp: wf_srm_def wf_segments_def)
  with l n have h: "holds_store c' (concat segs)"
    by (simp add: holds_store_def)
  have "intel_hdcp_ksvs_revocated c' (concat [k]) (length [k])
        = Some (\<exists>x\<in>set [k]. x \<in> set (concat segs))"
    using a by (intro revocated_on_store [OF h]) simp
  then show "\<exists>c'. intel_hdcp_parse_srm e c0 data = Some (0, c')
            \<and> intel_hdcp_ksvs_revocated c' k 1 = Some (k \<in> set (concat segs))"
    using p by auto
qed

lemma wf_srm_one_ksv: "wf_srm srm_one_ksv [[[0xAA, 0x55, 0xF0, 0x0F, 0x3C]]]"
proof -
  have 1: "srm_one_ksv = [0x80, 0, 0, 1, 0, 0, 0, 49] @ vrls [[[0xAA, 0x55, 0xF0, 0x0F, 0x3C]]]
             @ dcp_signature"
    by (simp add: srm_one_ksv_def vrls_def vrl_segment_def)
  have 2: "srm_id [0x80, 0, 0, 1, 0, 0, 0, 49] = DRM_HDCP_1_4_SRM_ID"
    by code_simp
  have 3: "vrl_length_field [0x80, 0, 0, 1, 0, 0, 0, 49]
           = DRM_HDCP_1_4_VRL_LENGTH_SIZE + DRM_HDCP_1_4_DCP_SIG_SIZE
             + length (vrls [[[0xAA, 0x55, 0xF0, 0x0F, 0x3C]]])"
    by code_simp
  have 4: "length dcp_signature = DRM_HDCP_1_4_DCP_SIG_SIZE"
    by (simp add: dcp_signature_def DRM_HDCP_1_4_DCP_SIG_SIZE_def)
  have 5: "length [0x80, 0, 0, 1, 0, 0, 0, 49 :: u8]
           = sizeof_cp_srm_header + DRM_HDCP_1_4_VRL_LENGTH_SIZE"
    by (simp add: sizeof_cp_srm_header_def DRM_HDCP_1_4_VRL_LENGTH_SIZE_def)
  have 6: "wf_segments [[[0xAA, 0x55, 0xF0, 0x0F, 0x3C]]]"
    by (simp add: wf_segments_def)
  have 7: "concat [[[0xAA, 0x55, 0xF0, 0x0F, 0x3C :: u8]]] \<noteq> []"
    by simp
  show ?thesis
    unfolding wf_srm_def
    using 1 2 3 4 5 6 7 by blast
qed

theorem revocated_iff_candidate_in_store_witness:
  "holds_store conn_with_store [[0x0F, 0xF0, 0x33, 0xCC, 0x55]]
   \<and> wf_srm srm_one_ksv [[[0xAA, 0x55, 0xF0, 0x0F, 0x3C]]]
   \<and> kzalloc_ok quiet_env (tick idle_connector)
   \<and> revocated_ksv_list idle_connector \<noteq> Freed
   \<and> intel_hdcp_ksvs_revocated conn_with_store [0x0F, 0xF0, 0x33, 0xCC, 0x55] 1 = Some True
   \<and> (\<exists>c'. intel_hdcp_parse_srm quiet_env idle_connector srm_one_ksv = Some (0, c')
          \<and> intel_hdcp_ksvs_revocated c' [0xAA, 0x55, 0xF0, 0x0F, 0x3C] 1 = Some True)
   \<and> (\<exists>c'. intel_hdcp_parse_srm quiet_env idle_connector srm_one_ksv = Some (0, c')
          \<and> intel_hdcp_ksvs_revocated c' [0xAB, 0x55, 0xF0, 0x0F, 0x3C] 1 = Some False)"
proof -
  have h: "holds_store conn_with_store [[0x0F, 0xF0, 0x33, 0xCC, 0x55]]"
    by (simp add: holds_store_def conn_with_store_def idle_connector_def)
  have k: "kzalloc_ok quiet_env (tick idle_connector)"
    by (simp add: quiet_env_def)
  have f: "revocated_ksv_list idle_connector \<noteq> Freed"
    by (simp add: idle_connector_def)
  note t = revocated_iff_candidate_in_store
    [of conn_with_store "[[0x0F, 0xF0, 0x33, 0xCC, 0x55]]" "[[0x0F, 0xF0, 0x33, 0xCC, 0x55]]"
        srm_one_ksv "[[[0xAA, 0x55, 0xF0, 0x0F, 0x3C]]]" quiet_env idle_connector]
  show ?thesis
    using h k f wf_srm_one_ksv t [of "[0xAA, 0x55, 0xF0, 0x0F, 0x3C]"]
      t [of "[0xAB, 0x55, 0xF0, 0x0F, 0x3C]"]
    by simp
qed

end
